theory Spec2Isabelle
  imports Main "HOL-Library.Word"
begin

section \<open>Go values used by kafka/parsing.go\<close>

text \<open>
  A Go \<open>string\<close> is a sequence of bytes; it is modelled as \<^typ>\<open>string\<close>, one \<^typ>\<open>char\<close> per
  byte. A slice is modelled as a list, the \<open>nil\<close> slice as the empty list. A run-time panic and
  \<open>log.Fatal\<close> end the computation: they are the left summand of every result that can meet one.
  The calls of \<open>log.Warn\<close> write to the process log and change no returned value; they are left
  out.
\<close>

datatype NumErr = ErrSyntax | ErrRange

datatype error =
    errorString string
  | NumError string string NumErr

datatype abort =
    IndexOutOfRange nat nat
  | Fatal error

definition errors_New :: "string \<Rightarrow> error" where
  "errors_New text = errorString text"

text \<open>\<open>xs[i]\<close> on a slice: a panic \<open>index out of range [i] with length n\<close> when \<open>i\<close> is not below
  the length.\<close>

definition index :: "'a list \<Rightarrow> nat \<Rightarrow> abort + 'a" where
  "index xs i = (if i < length xs then Inr (xs ! i) else Inl (IndexOutOfRange i (length xs)))"

text \<open>\<open>m[k]\<close> on a \<open>map[string]int\<close>: the zero value when the key is absent.\<close>

definition lookup :: "(string \<rightharpoonup> nat) \<Rightarrow> string \<Rightarrow> nat" where
  "lookup m k = (case m k of None \<Rightarrow> 0 | Some i \<Rightarrow> i)"

subsection \<open>Package strings\<close>

fun HasPrefix :: "string \<Rightarrow> string \<Rightarrow> bool" where
  "HasPrefix s [] = True"
| "HasPrefix [] (p # ps) = False"
| "HasPrefix (c # cs) (p # ps) = (c = p \<and> HasPrefix cs ps)"

text \<open>\<open>strings.Contains(s, substr)\<close>: \<open>substr\<close> starts at some position of \<open>s\<close>.\<close>

fun Contains :: "string \<Rightarrow> string \<Rightarrow> bool" where
  "Contains [] substr = HasPrefix [] substr"
| "Contains (c # cs) substr = (HasPrefix (c # cs) substr \<or> Contains cs substr)"

text \<open>\<open>strings.Split(s, sep)\<close> for a separator of one byte, which is how both call sites use it
  (\<open>"\n"\<close>): the pieces between the separators, so one piece more than there are separators.\<close>

fun Split :: "string \<Rightarrow> char \<Rightarrow> string list" where
  "Split [] sep = [[]]"
| "Split (c # cs) sep =
     (if c = sep then [] # Split cs sep
      else (case Split cs sep of [] \<Rightarrow> [[c]] | l # ls \<Rightarrow> (c # l) # ls))"

definition newline :: char where
  "newline = CHR 0x0A"

text \<open>\<open>strings.Join\<close> with a separator of one byte. The source does not call it; it serves to
  say what \<open>Split\<close> returns.\<close>

fun Join :: "string list \<Rightarrow> char \<Rightarrow> string" where
  "Join [] sep = []"
| "Join [l] sep = l"
| "Join (l # l' # ls) sep = l @ sep # Join (l' # ls) sep"

subsection \<open>Package strconv\<close>

type_synonym uint64 = "64 word"
type_synonym int64 = "64 word"

text \<open>\<open>strconv.ParseUint(s, 10, 64)\<close>. In base 10 every byte other than a decimal digit is a
  syntax error. \<open>cutoff\<close> is \<open>maxUint64/10 + 1\<close>, \<open>maxVal\<close> is \<open>1<<64 - 1\<close>; on overflow the loop
  returns \<open>maxVal\<close> with a range error at once.\<close>

definition maxUint64 :: uint64 where
  "maxUint64 = - 1"

definition isDigit :: "char \<Rightarrow> bool" where
  "isDigit c = (of_char CHR ''0'' \<le> (of_char c :: nat) \<and> (of_char c :: nat) \<le> of_char CHR ''9'')"

definition digitVal :: "char \<Rightarrow> nat" where
  "digitVal c = of_char c - of_char CHR ''0''"

fun ParseUint_loop :: "string \<Rightarrow> uint64 \<Rightarrow> uint64 \<times> NumErr option" where
  "ParseUint_loop [] n = (n, None)"
| "ParseUint_loop (c # cs) n =
     (if \<not> isDigit c then (0, Some ErrSyntax)
      else if n \<ge> maxUint64 div 10 + 1 then (maxUint64, Some ErrRange)
      else let n' = n * 10; n1 = n' + of_nat (digitVal c)
           in if n1 < n' \<or> n1 > maxUint64 then (maxUint64, Some ErrRange)
              else ParseUint_loop cs n1)"

definition ParseUint :: "string \<Rightarrow> uint64 \<times> NumErr option" where
  "ParseUint s = (if s = [] then (0, Some ErrSyntax) else ParseUint_loop s 0)"

text \<open>\<open>strconv.ParseInt(s, 10, 64)\<close>: an optional sign, then \<open>ParseUint\<close>; \<open>cutoff\<close> is \<open>1<<63\<close>.\<close>

definition ParseInt :: "string \<Rightarrow> int64 \<times> error option" where
  "ParseInt s0 =
     (if s0 = [] then (0, Some (NumError ''ParseInt'' s0 ErrSyntax))
      else
        let neg = (hd s0 = CHR ''-'');
            s = (if hd s0 = CHR ''+'' \<or> hd s0 = CHR ''-'' then tl s0 else s0);
            (un, err) = ParseUint s;
            cutoff = (push_bit 63 1 :: uint64)
        in if err \<noteq> None \<and> err \<noteq> Some ErrRange then (0, Some (NumError ''ParseInt'' s0 ErrSyntax))
           else if \<not> neg \<and> un \<ge> cutoff then (cutoff - 1, Some (NumError ''ParseInt'' s0 ErrRange))
           else if neg \<and> un > cutoff then (- cutoff, Some (NumError ''ParseInt'' s0 ErrRange))
           else (if neg then - un else un, None))"

text \<open>The number a string of decimal digits denotes, for stating what the conversion returns.\<close>

definition decimal_from :: "nat \<Rightarrow> string \<Rightarrow> nat" where
  "decimal_from n s = foldl (\<lambda>a c. 10 * a + digitVal c) n s"

definition decimal :: "string \<Rightarrow> nat" where
  "decimal s = decimal_from 0 s"

subsection \<open>Package regexp\<close>

text \<open>
  The syntax tree of a compiled pattern, as package \<open>regexp/syntax\<close> builds it, restricted to the
  operators the patterns of kafka/parsing.go use: literals, a character class under a greedy \<open>+\<close>,
  (named) capture groups with the index the parser gives them, and concatenation. A class is a
  list of inclusive ranges, possibly negated; \<open>.\<close> is every character but the newline.

  Package \<open>regexp\<close> reads the input rune by rune, the model byte by byte. The bytes of a rune
  beyond ASCII are all above \<open>0x7F\<close>: they belong to \<open>.\<close> and to the negated classes and to
  no other class or literal of the patterns below, so that a match of these patterns begins and
  ends, and captures, at the same places either way.
\<close>

datatype CharSet =
    CharClass "(char \<times> char) list"
  | NegCharClass "(char \<times> char) list"
  | AnyCharNotNL

datatype Regexp =
    OpLiteral string
  | OpPlus CharSet
  | OpCapture nat string Regexp
  | OpConcat "Regexp list"

definition inRange :: "char \<Rightarrow> char \<times> char \<Rightarrow> bool" where
  "inRange c r = (of_char (fst r) \<le> (of_char c :: nat) \<and> (of_char c :: nat) \<le> of_char (snd r))"

fun matchesSet :: "CharSet \<Rightarrow> char \<Rightarrow> bool" where
  "matchesSet (CharClass rs) c = list_ex (inRange c) rs"
| "matchesSet (NegCharClass rs) c = (\<not> list_ex (inRange c) rs)"
| "matchesSet AnyCharNotNL c = (c \<noteq> CHR 0x0A)"

text \<open>\<open>MaxCap\<close> and \<open>capNames\<close> of \<open>regexp/syntax\<close> walk the tree; \<open>SubexpNames\<close> is the array of
  \<open>MaxCap + 1\<close> names they fill, entry 0 (the whole match) being the empty name.\<close>

fun MaxCap :: "Regexp \<Rightarrow> nat" and MaxCap_subs :: "Regexp list \<Rightarrow> nat \<Rightarrow> nat" where
  "MaxCap (OpLiteral s) = 0"
| "MaxCap (OpPlus cs) = 0"
| "MaxCap (OpCapture i name sub) = (if i < MaxCap sub then MaxCap sub else i)"
| "MaxCap (OpConcat subs) = MaxCap_subs subs 0"
| "MaxCap_subs [] m = m"
| "MaxCap_subs (sub # subs) m = MaxCap_subs subs (if m < MaxCap sub then MaxCap sub else m)"

fun capNames :: "Regexp \<Rightarrow> string list \<Rightarrow> string list"
  and capNames_subs :: "Regexp list \<Rightarrow> string list \<Rightarrow> string list" where
  "capNames (OpLiteral s) names = names"
| "capNames (OpPlus cs) names = names"
| "capNames (OpCapture i name sub) names = capNames sub (names[i := name])"
| "capNames (OpConcat subs) names = capNames_subs subs names"
| "capNames_subs [] names = names"
| "capNames_subs (sub # subs) names = capNames_subs subs (capNames sub names)"

definition NumSubexp :: "Regexp \<Rightarrow> nat" where
  "NumSubexp re = MaxCap re"

definition SubexpNames :: "Regexp \<Rightarrow> string list" where
  "SubexpNames re = capNames re (replicate (MaxCap re + 1) [])"

text \<open>
  Matching is leftmost-first: of the matches that start earliest, the one a backtracking search
  finds first. A thread is the captures recorded so far and the input still to read;
  \<open>backtrack re t\<close> lists, in the order the search would try them, the threads in which \<open>re\<close>
  has matched at the start of the input of \<open>t\<close>. A greedy \<open>+\<close> offers its longest run first.
\<close>

type_synonym thread = "(nat \<times> string) list \<times> string"

definition plusThreads :: "CharSet \<Rightarrow> thread \<Rightarrow> thread list" where
  "plusThreads cs t =
     (let n = length (takeWhile (matchesSet cs) (snd t))
      in map (\<lambda>k. (fst t, drop k (snd t))) (rev [1..<Suc n]))"

fun backtrack :: "Regexp \<Rightarrow> thread \<Rightarrow> thread list"
  and backtrack_concat :: "Regexp list \<Rightarrow> thread \<Rightarrow> thread list" where
  "backtrack (OpLiteral s) t =
     (if HasPrefix (snd t) s then [(fst t, drop (length s) (snd t))] else [])"
| "backtrack (OpPlus cs) t = plusThreads cs t"
| "backtrack (OpCapture i name sub) t =
     map (\<lambda>t'. ((i, take (length (snd t) - length (snd t')) (snd t)) # fst t', snd t'))
       (backtrack sub t)"
| "backtrack (OpConcat subs) t = backtrack_concat subs t"
| "backtrack_concat [] t = [t]"
| "backtrack_concat (sub # subs) t = concat (map (backtrack_concat subs) (backtrack sub t))"

text \<open>The unanchored search: the first thread of the earliest start position that has one, with
  the text of the whole match as capture 0.\<close>

fun search :: "Regexp \<Rightarrow> string \<Rightarrow> (nat \<times> string) list option" where
  "search re [] =
     (case backtrack re ([], []) of [] \<Rightarrow> None | t # _ \<Rightarrow> Some ((0, []) # fst t))"
| "search re (c # cs) =
     (case backtrack re ([], c # cs) of
        [] \<Rightarrow> search re cs
      | t # _ \<Rightarrow> Some ((0, take (length (c # cs) - length (snd t)) (c # cs)) # fst t))"

definition MatchString :: "Regexp \<Rightarrow> string \<Rightarrow> bool" where
  "MatchString re s = (search re s \<noteq> None)"

text \<open>\<open>FindStringSubmatch\<close>: \<open>nil\<close> when there is no match, otherwise the text of the match and
  of each of the \<open>NumSubexp\<close> groups, the empty string for a group that took no part.\<close>

definition FindStringSubmatch :: "Regexp \<Rightarrow> string \<Rightarrow> string list" where
  "FindStringSubmatch re s =
     (case search re s of
        None \<Rightarrow> []
      | Some caps \<Rightarrow>
          map (\<lambda>i. case map_of caps i of None \<Rightarrow> [] | Some text \<Rightarrow> text) [0..<Suc (NumSubexp re)])"

text \<open>
  What a match is, for stating what the search returns: \<open>derives re text caps\<close> says that \<open>re\<close>
  matches exactly \<open>text\<close> and records the captures \<open>caps\<close>, the latest first.
\<close>

fun derives :: "Regexp \<Rightarrow> string \<Rightarrow> (nat \<times> string) list \<Rightarrow> bool"
  and derives_concat :: "Regexp list \<Rightarrow> string \<Rightarrow> (nat \<times> string) list \<Rightarrow> bool" where
  "derives (OpLiteral s) text caps = (text = s \<and> caps = [])"
| "derives (OpPlus cs) text caps = (text \<noteq> [] \<and> list_all (matchesSet cs) text \<and> caps = [])"
| "derives (OpCapture i name sub) text caps =
     (\<exists>caps'. caps = (i, text) # caps' \<and> derives sub text caps')"
| "derives (OpConcat subs) text caps = derives_concat subs text caps"
| "derives_concat [] text caps = (text = [] \<and> caps = [])"
| "derives_concat (sub # subs) text caps =
     (\<exists>text1 text2 caps1 caps2. text = text1 @ text2 \<and> caps = caps2 @ caps1 \<and>
        derives sub text1 caps1 \<and> derives_concat subs text2 caps2)"

section \<open>parseGroups\<close>

fun parseGroups_loop :: "string list \<Rightarrow> string list \<Rightarrow> string list" where
  "parseGroups_loop [] groups = groups"
| "parseGroups_loop (line # lines) groups =
     parseGroups_loop lines (if line \<noteq> [] then groups @ [line] else groups)"

definition parseGroups :: "string \<Rightarrow> string list \<times> error option" where
  "parseGroups output =
     (if Contains output ''java.lang.RuntimeException''
      then ([], Some (errorString (''Got runtime error when executing script. Output: '' @ output)))
      else (parseGroups_loop (Split output newline) [], None))"

section \<open>regexpParser\<close>

record PartitionInfo =
  Topic :: string
  PartitionID :: string
  CurrentOffset :: int64
  Lag :: int64
  ClientID :: string
  ConsumerAddress :: string

record regexpParser =
  header :: Regexp
  line :: Regexp
  indexByName :: "string \<rightharpoonup> nat"

fun indexNames :: "string list \<Rightarrow> nat \<Rightarrow> (string \<rightharpoonup> nat) \<Rightarrow> (string \<rightharpoonup> nat)" where
  "indexNames [] i m = m"
| "indexNames (name # names) i m = indexNames names (Suc i) (m(name \<mapsto> i))"

definition requiredFields :: "string list" where
  "requiredFields =
     [''topic'', ''partitionId'', ''currentOffset'', ''lag'', ''clientId'', ''consumerAddress'']"

fun checkFields :: "string list \<Rightarrow> (string \<rightharpoonup> nat) \<Rightarrow> error option" where
  "checkFields [] m = None"
| "checkFields (field # rest) m =
     (if m field = None
      then Some (errorString (''line regexp missing '' @ [CHR 0x27] @ field @ [CHR 0x27] @ '' capturing group''))
      else checkFields rest m)"

definition newRegexpParser :: "Regexp \<Rightarrow> Regexp \<Rightarrow> error + regexpParser" where
  "newRegexpParser hdr ln =
     (let byName = indexNames (SubexpNames ln) 0 Map.empty
      in case checkFields requiredFields byName of
           Some err \<Rightarrow> Inl err
         | None \<Rightarrow> Inr \<lparr>header = hdr, line = ln, indexByName = byName\<rparr>)"

definition parseLong :: "string \<Rightarrow> int64 \<times> error option" where
  "parseLong v =
     (case ParseInt v of (longVal, Some err) \<Rightarrow> (- 1, Some err) | (longVal, None) \<Rightarrow> (longVal, None))"

text \<open>Sequencing of steps that may panic.\<close>

definition bind :: "abort + 'a \<Rightarrow> ('a \<Rightarrow> abort + 'b) \<Rightarrow> abort + 'b" where
  "bind x f = (case x of Inl a \<Rightarrow> Inl a | Inr v \<Rightarrow> f v)"

text \<open>\<open>parseLine\<close> reads the match result by index without looking at whether the line matched;
  the six reads happen in the order of the source, and the first one out of range panics.\<close>

definition parseLine :: "regexpParser \<Rightarrow> string \<Rightarrow> abort + (PartitionInfo \<times> error option)" where
  "parseLine p ln =
     (let matches = FindStringSubmatch (line p) ln
      in bind (index matches (lookup (indexByName p) ''currentOffset'')) (\<lambda>currentOffsetText.
         let (currentOffset, err1) = parseLong currentOffsetText
         in bind (index matches (lookup (indexByName p) ''lag'')) (\<lambda>lagText.
         let (lag, err2) = parseLong lagText
         in bind (index matches (lookup (indexByName p) ''topic'')) (\<lambda>topic.
            bind (index matches (lookup (indexByName p) ''partitionId'')) (\<lambda>partitionId.
            bind (index matches (lookup (indexByName p) ''clientId'')) (\<lambda>clientId.
            bind (index matches (lookup (indexByName p) ''consumerAddress'')) (\<lambda>consumerAddress.
            Inr (\<lparr>Topic = topic, PartitionID = partitionId, CurrentOffset = currentOffset,
                  Lag = lag, ClientID = clientId, ConsumerAddress = consumerAddress\<rparr>,
                 None))))))))"

type_synonym parseResult = "abort + (PartitionInfo list \<times> error option)"

fun parseLines :: "regexpParser \<Rightarrow> string list \<Rightarrow> PartitionInfo list \<Rightarrow> parseResult" where
  "parseLines p [] partitions = Inr (partitions, None)"
| "parseLines p (ln # lns) partitions =
     (case parseLine p ln of
        Inl a \<Rightarrow> Inl a
      | Inr (pinfo, Some err) \<Rightarrow> Inr (partitions, Some err)
      | Inr (pinfo, None) \<Rightarrow> parseLines p lns (partitions @ [pinfo]))"

definition regexpParser_Parse :: "regexpParser \<Rightarrow> string \<Rightarrow> parseResult" where
  "regexpParser_Parse p output =
     (let lines = Split output newline
      in if length lines = 0 then Inr ([], Some (errors_New ''empty output''))
         else bind (index lines 0) (\<lambda>headerLine.
              let dataLines = drop 1 lines
              in if \<not> MatchString (header p) headerLine
                 then Inr ([], Some (errors_New ''incorrect header''))
                 else parseLines p dataLines []))"

section \<open>The parsers for the output of describe group\<close>

definition perl_s :: CharSet where
  "perl_s = CharClass [(CHR 0x09, CHR 0x0A), (CHR 0x0C, CHR 0x0D), (CHR '' '', CHR '' '')]"

definition perl_S :: CharSet where
  "perl_S = NegCharClass [(CHR 0x09, CHR 0x0A), (CHR 0x0C, CHR 0x0D), (CHR '' '', CHR '' '')]"

definition perl_d :: CharSet where
  "perl_d = CharClass [(CHR ''0'', CHR ''9'')]"

text \<open>The class \<^verbatim>\<open>[a-zA-Z0-9\\._\\-]\<close> of a raw string literal: letters, digits, the backslash
  (escaped, twice), the dot, the underscore and the hyphen.\<close>

definition topicChars :: CharSet where
  "topicChars = CharClass
     [(CHR ''a'', CHR ''z''), (CHR ''A'', CHR ''Z''), (CHR ''0'', CHR ''9''),
      (CHR 0x5C, CHR 0x5C), (CHR ''.'', CHR ''.''), (CHR ''_'', CHR ''_''),
      (CHR 0x5C, CHR 0x5C), (CHR ''-'', CHR ''-'')]"

definition notComma :: CharSet where
  "notComma = NegCharClass [(CHR '','', CHR '','')]"

definition header_0_10_2_1 :: Regexp where
  "header_0_10_2_1 = OpConcat
     [OpLiteral ''TOPIC'', OpPlus perl_s, OpLiteral ''PARTITION'', OpPlus perl_s,
      OpLiteral ''CURRENT-OFFSET'', OpPlus perl_s, OpLiteral ''LOG-END-OFFSET'', OpPlus perl_s,
      OpLiteral ''LAG'', OpPlus perl_s, OpLiteral ''CONSUMER-ID'', OpPlus perl_s,
      OpLiteral ''HOST'', OpPlus perl_s, OpLiteral ''CLIENT-ID'']"

definition line_0_10_2_1 :: Regexp where
  "line_0_10_2_1 = OpConcat
     [OpCapture 1 ''topic'' (OpPlus topicChars), OpPlus perl_s,
      OpCapture 2 ''partitionId'' (OpPlus perl_d), OpPlus perl_s,
      OpCapture 3 ''currentOffset'' (OpPlus perl_d), OpPlus perl_s,
      OpPlus perl_d, OpPlus perl_s,
      OpCapture 4 ''lag'' (OpPlus perl_d), OpPlus perl_s,
      OpCapture 5 ''consumerId'' (OpPlus perl_S), OpPlus perl_s,
      OpCapture 6 ''consumerAddress'' (OpPlus perl_S), OpPlus perl_s,
      OpCapture 7 ''clientId'' (OpPlus perl_S)]"

definition header_0_10_0_1 :: Regexp where
  "header_0_10_0_1 = OpConcat
     [OpLiteral ''GROUP'', OpPlus perl_s, OpLiteral ''TOPIC'', OpPlus perl_s,
      OpLiteral ''PARTITION'', OpPlus perl_s, OpLiteral ''CURRENT-OFFSET'', OpPlus perl_s,
      OpLiteral ''LOG-END-OFFSET'', OpPlus perl_s, OpLiteral ''LAG'', OpPlus perl_s,
      OpLiteral ''OWNER'']"

definition line_0_10_0_1 :: Regexp where
  "line_0_10_0_1 = OpConcat
     [OpPlus AnyCharNotNL, OpPlus perl_s,
      OpCapture 1 ''topic'' (OpPlus topicChars), OpPlus perl_s,
      OpCapture 2 ''partitionId'' (OpPlus perl_d), OpPlus perl_s,
      OpCapture 3 ''currentOffset'' (OpPlus perl_d), OpPlus perl_s,
      OpPlus perl_d, OpPlus perl_s,
      OpCapture 4 ''lag'' (OpPlus perl_d), OpPlus perl_s,
      OpCapture 5 ''clientId'' (OpPlus perl_S), OpLiteral ''_/'',
      OpCapture 6 ''consumerAddress'' (OpPlus AnyCharNotNL)]"

definition header_0_9_0_1 :: Regexp where
  "header_0_9_0_1 =
     OpLiteral ''GROUP, TOPIC, PARTITION, CURRENT OFFSET, LOG END OFFSET, LAG, OWNER''"

definition line_0_9_0_1 :: Regexp where
  "line_0_9_0_1 = OpConcat
     [OpPlus notComma, OpLiteral '', '',
      OpCapture 1 ''topic'' (OpPlus topicChars), OpLiteral '', '',
      OpCapture 2 ''partitionId'' (OpPlus perl_d), OpLiteral '', '',
      OpCapture 3 ''currentOffset'' (OpPlus perl_d), OpLiteral '', '',
      OpPlus perl_d, OpLiteral '', '',
      OpCapture 4 ''lag'' (OpPlus perl_d), OpLiteral '', '',
      OpCapture 5 ''clientId'' (OpPlus AnyCharNotNL), OpLiteral ''_/'',
      OpCapture 6 ''consumerAddress'' (OpPlus AnyCharNotNL)]"

text \<open>\<open>mustBuildNewRegexpParser\<close> ends the process with \<open>log.Fatal\<close> when the construction
  fails.\<close>

definition mustBuildNewRegexpParser :: "Regexp \<Rightarrow> Regexp \<Rightarrow> abort + regexpParser" where
  "mustBuildNewRegexpParser hdr ln =
     (case newRegexpParser hdr ln of Inl err \<Rightarrow> Inl (Fatal err) | Inr parser \<Rightarrow> Inr parser)"

definition kafka0_10_2_1DescribeGroupParser :: "abort + regexpParser" where
  "kafka0_10_2_1DescribeGroupParser = mustBuildNewRegexpParser header_0_10_2_1 line_0_10_2_1"

definition kafka0_10_0_1DescribeGroupParser :: "abort + regexpParser" where
  "kafka0_10_0_1DescribeGroupParser = mustBuildNewRegexpParser header_0_10_0_1 line_0_10_0_1"

definition kafka0_9_0_1DescribeGroupParser :: "abort + regexpParser" where
  "kafka0_9_0_1DescribeGroupParser = mustBuildNewRegexpParser header_0_9_0_1 line_0_9_0_1"

section \<open>DelegatingParser\<close>

text \<open>A value of the interface \<open>DescribeGroupParser\<close> is its method \<open>Parse\<close>.\<close>

type_synonym DescribeGroupParser = "string \<Rightarrow> parseResult"

record DelegatingParser =
  Parsers :: "DescribeGroupParser list"

fun tryParsers :: "DescribeGroupParser list \<Rightarrow> string \<Rightarrow> parseResult" where
  "tryParsers [] output = Inr ([], Some (errors_New ''no parser could parse the output''))"
| "tryParsers (parser # parsers) output =
     (case parser output of
        Inl a \<Rightarrow> Inl a
      | Inr (partitions, None) \<Rightarrow> Inr (partitions, None)
      | Inr (partitions, Some err) \<Rightarrow> tryParsers parsers output)"

definition DelegatingParser_Parse :: "DelegatingParser \<Rightarrow> string \<Rightarrow> parseResult" where
  "DelegatingParser_Parse p output = tryParsers (Parsers p) output"

text \<open>The package variables are initialised in the order of their declaration, before
  \<open>DefaultParser\<close> can be called.\<close>

definition DefaultParser :: "abort + DelegatingParser" where
  "DefaultParser =
     bind kafka0_10_2_1DescribeGroupParser (\<lambda>p_0_10_2_1.
     bind kafka0_10_0_1DescribeGroupParser (\<lambda>p_0_10_0_1.
     bind kafka0_9_0_1DescribeGroupParser (\<lambda>p_0_9_0_1.
       Inr \<lparr>Parsers =
             [regexpParser_Parse p_0_9_0_1,
              regexpParser_Parse p_0_10_0_1,
              regexpParser_Parse p_0_10_2_1]\<rparr>)))"

section \<open>The example of the 0.10.2.1 format\<close>

definition example_output :: string where
  "example_output =
     ''TOPIC PARTITION CURRENT-OFFSET LOG-END-OFFSET LAG CONSUMER-ID HOST CLIENT-ID'' @ [newline] @
     ''orders 0 105 110 5 consumer-1-abc /10.0.0.5 app-client-1''"

text \<open>A detail line whose current offset does not fit 64 bits, alone and after the example.\<close>

definition overflow_line :: string where
  "overflow_line = ''orders 1 99999999999999999999 110 7 consumer-1-abc /10.0.0.5 app-client-1''"

definition overflow_output :: string where
  "overflow_output = example_output @ [newline] @ overflow_line"

section \<open>Properties of the string functions\<close>

lemma HasPrefix_append: "HasPrefix (sub @ b) sub"
  by (induction sub) simp_all

lemma HasPrefix_iff: "HasPrefix s sub \<longleftrightarrow> (\<exists>b. s = sub @ b)"
  by (induction s sub rule: HasPrefix.induct) auto

lemma Contains_HasPrefix: "HasPrefix s sub \<Longrightarrow> Contains s sub"
  by (cases s) simp_all

lemma Contains_append: "Contains (a @ sub @ b) sub"
  by (induction a) (simp_all add: Contains_HasPrefix HasPrefix_append)

lemma Contains_iff: "Contains s sub \<longleftrightarrow> (\<exists>a b. s = a @ sub @ b)"
proof
  show "Contains s sub \<Longrightarrow> \<exists>a b. s = a @ sub @ b"
  proof (induction s)
    case Nil
    then show ?case by (simp add: HasPrefix_iff)
  next
    case (Cons c cs)
    from Cons.prems have "HasPrefix (c # cs) sub \<or> Contains cs sub" by simp
    then show ?case
    proof
      assume "HasPrefix (c # cs) sub"
      then obtain b where "c # cs = sub @ b" by (auto simp: HasPrefix_iff)
      then have "c # cs = [] @ sub @ b" by simp
      then show ?thesis by blast
    next
      assume "Contains cs sub"
      then obtain a b where "cs = a @ sub @ b" using Cons.IH by blast
      then have "c # cs = (c # a) @ sub @ b" by simp
      then show ?thesis by blast
    qed
  qed
next
  show "\<exists>a b. s = a @ sub @ b \<Longrightarrow> Contains s sub"
    using Contains_append by blast
qed

lemma Split_not_Nil: "Split s sep \<noteq> []"
  by (induction s) (auto split: list.splits)

lemma Join_Cons: "ls \<noteq> [] \<Longrightarrow> Join (l # ls) sep = l @ sep # Join ls sep"
  by (cases ls) simp_all

lemma Join_Cons_hd: "Join ((c # l) # ls) sep = c # Join (l # ls) sep"
  by (cases ls) simp_all

lemma Join_Split: "Join (Split s sep) sep = s"
proof (induction s)
  case Nil
  show ?case by simp
next
  case (Cons c cs)
  show ?case
  proof (cases "c = sep")
    case True
    then show ?thesis using Cons.IH by (simp add: Join_Cons Split_not_Nil)
  next
    case False
    obtain l ls where sp: "Split cs sep = l # ls"
      using Split_not_Nil [of cs sep] by (cases "Split cs sep") auto
    with False Cons.IH show ?thesis by (simp add: Join_Cons_hd)
  qed
qed

lemma Split_no_sep: "l \<in> set (Split s sep) \<Longrightarrow> sep \<notin> set l"
  by (induction s arbitrary: l) (auto split: if_splits list.splits)

lemma parseGroups_loop_filter:
  "parseGroups_loop lines groups = groups @ filter (\<lambda>l. l \<noteq> []) lines"
  by (induction lines arbitrary: groups) simp_all

section \<open>Properties of the conversion to integers\<close>

lemma cutoff_val: "unat (maxUint64 div 10 + 1) = 1844674407370955162"
  by (simp add: maxUint64_def)

lemma maxUint64_val: "unat maxUint64 = 18446744073709551615"
  by (simp add: maxUint64_def unsigned_minus_1_eq_mask mask_eq_exp_minus_1)

lemma isDigit_digitVal: "isDigit c \<Longrightarrow> digitVal c < 10"
  by (auto simp: isDigit_def digitVal_def)

lemma decimal_from_Cons: "decimal_from n (c # cs) = decimal_from (10 * n + digitVal c) cs"
  by (simp add: decimal_from_def)

lemma decimal_from_ge: "n \<le> decimal_from n s"
proof (induction s arbitrary: n)
  case Nil
  show ?case by (simp add: decimal_from_def)
next
  case (Cons c cs)
  have "n \<le> 10 * n + digitVal c" by simp
  also have "\<dots> \<le> decimal_from (10 * n + digitVal c) cs" by (rule Cons.IH)
  finally show ?case by (simp add: decimal_from_Cons)
qed

lemma ParseUint_loop_digits:
  "list_all isDigit s \<Longrightarrow>
   ParseUint_loop s n =
     (if decimal_from (unat n) s < 2 ^ 64 then (of_nat (decimal_from (unat n) s), None)
      else (maxUint64, Some ErrRange))"
proof (induction s arbitrary: n)
  case Nil
  show ?case using unsigned_less [of n, where 'a = nat] by (simp add: decimal_from_def)
next
  case (Cons c cs)
  then have dig: "isDigit c" and rest: "list_all isDigit cs" by simp_all
  let ?d = "digitVal c"
  have d: "?d < 10" using dig by (rule isDigit_digitVal)
  have nlt: "unat n < 2 ^ 64" using unsigned_less [of n, where 'a = nat] by simp
  show ?case
  proof (cases "n \<ge> maxUint64 div 10 + 1")
    case True
    then have "unat n \<ge> 1844674407370955162"
      by (simp add: word_le_nat_alt cutoff_val)
    then have "10 * unat n + ?d \<ge> 2 ^ 64" by simp
    then have "decimal_from (unat n) (c # cs) \<ge> 2 ^ 64"
      using decimal_from_ge [of "10 * unat n + ?d" cs] by (simp add: decimal_from_Cons)
    with True dig show ?thesis by simp
  next
    case False
    then have small: "unat n < 1844674407370955162"
      by (simp add: word_le_nat_alt cutoff_val)
    then have m: "unat (n * 10) = 10 * unat n"
      by (simp add: unat_word_ariths)
    have dw: "unat (of_nat ?d :: uint64) = ?d"
      using d by (simp add: unat_of_nat)
    show ?thesis
    proof (cases "10 * unat n + ?d < 2 ^ 64")
      case True
      then have s: "unat (n * 10 + of_nat ?d) = 10 * unat n + ?d"
        using m dw by (simp add: unat_word_ariths)
      then have nowrap: "\<not> (n * 10 + of_nat ?d < n * 10)"
        using m by (simp add: word_less_nat_alt)
      have nomax: "\<not> (n * 10 + of_nat ?d > maxUint64)"
        using True by (simp add: word_less_nat_alt maxUint64_val s)
      show ?thesis
        using dig False nowrap nomax Cons.IH [OF rest, of "n * 10 + of_nat ?d"]
        by (simp add: Let_def s decimal_from_Cons)
    next
      case False
      then have big: "10 * unat n + ?d \<ge> 2 ^ 64" by simp
      have "unat (n * 10 + of_nat ?d) = (10 * unat n + ?d) mod 2 ^ 64"
        using m dw by (simp add: unat_word_ariths)
      also have "\<dots> = 10 * unat n + ?d - 2 ^ 64"
        using big small d by (simp add: mod_if)
      finally have "unat (n * 10 + of_nat ?d) < unat (n * 10)"
        using m d big by simp
      then have wrap: "n * 10 + of_nat ?d < n * 10"
        by (simp add: word_less_nat_alt)
      have "decimal_from (unat n) (c # cs) \<ge> 2 ^ 64"
        using decimal_from_ge [of "10 * unat n + ?d" cs] big by (simp add: decimal_from_Cons)
      with dig \<open>\<not> n \<ge> maxUint64 div 10 + 1\<close> wrap show ?thesis
        by (simp add: Let_def)
    qed
  qed
qed

lemma isDigit_not_sign: "isDigit c \<Longrightarrow> c \<noteq> CHR ''+'' \<and> c \<noteq> CHR ''-''"
  by (auto simp: isDigit_def)

lemma ParseInt_digits:
  assumes "s \<noteq> []" and "list_all isDigit s"
  shows "ParseInt s =
     (if decimal s < 2 ^ 63 then (of_nat (decimal s), None)
      else (push_bit 63 1 - 1, Some (NumError ''ParseInt'' s ErrRange)))"
proof -
  from assms obtain c cs where s: "s = c # cs" by (cases s) auto
  with assms have "isDigit c" by simp
  then have sign: "hd s \<noteq> CHR ''+''" "hd s \<noteq> CHR ''-''"
    using isDigit_not_sign s by auto
  have pu: "ParseUint s = (if decimal s < 2 ^ 64 then (of_nat (decimal s), None)
      else (maxUint64, Some ErrRange))"
    using assms ParseUint_loop_digits [of s 0] by (simp add: ParseUint_def decimal_def)
  have cut: "unat (push_bit 63 1 :: uint64) = 2 ^ 63"
    by (simp add: push_bit_eq_mult)
  show ?thesis
  proof (cases "decimal s < 2 ^ 64")
    case True
    then have u: "unat (of_nat (decimal s) :: uint64) = decimal s"
      by (simp add: unat_of_nat)
    show ?thesis
      using assms(1) sign pu True
      by (simp add: ParseInt_def Let_def word_le_nat_alt u cut)
  next
    case False
    have "unat maxUint64 \<ge> (2::nat) ^ 63" by (simp add: maxUint64_val)
    with False show ?thesis
      using assms(1) sign pu
      by (simp add: ParseInt_def Let_def word_le_nat_alt cut)
  qed
qed

lemma parseLong_digits:
  assumes "s \<noteq> []" and "list_all isDigit s"
  shows "parseLong s =
     (if decimal s < 2 ^ 63 then (of_nat (decimal s), None)
      else (- 1, Some (NumError ''ParseInt'' s ErrRange)))"
  using ParseInt_digits [OF assms] by (simp add: parseLong_def)

section \<open>Soundness of the search for a match\<close>

lemma take_takeWhile_all:
  "k \<le> length (takeWhile P xs) \<Longrightarrow> list_all P (take k xs)"
proof (induction xs arbitrary: k)
  case Nil
  show ?case by simp
next
  case (Cons x xs)
  then show ?case by (cases k) (auto split: if_splits)
qed

lemma plusThreads_sound:
  assumes "t' \<in> set (plusThreads cs t)"
  shows "\<exists>text. snd t = text @ snd t' \<and> fst t' = fst t \<and> text \<noteq> [] \<and> list_all (matchesSet cs) text"
proof -
  let ?n = "length (takeWhile (matchesSet cs) (snd t))"
  from assms obtain k where k: "1 \<le> k" "k \<le> ?n" and eq: "t' = (fst t, drop k (snd t))"
    by (auto simp: plusThreads_def Let_def)
  have len: "?n \<le> length (snd t)" by (rule length_takeWhile_le)
  have "snd t = take k (snd t) @ snd t'" using eq by simp
  moreover have "take k (snd t) \<noteq> []" using k len by auto
  moreover have "list_all (matchesSet cs) (take k (snd t))"
    using k(2) by (rule take_takeWhile_all)
  moreover have "fst t' = fst t" using eq by simp
  ultimately show ?thesis by blast
qed

lemma backtrack_sound:
  "t' \<in> set (backtrack re t) \<Longrightarrow>
     \<exists>w caps. snd t = w @ snd t' \<and> fst t' = caps @ fst t \<and> derives re w caps"
  and backtrack_concat_sound:
  "t' \<in> set (backtrack_concat res t) \<Longrightarrow>
     \<exists>w caps. snd t = w @ snd t' \<and> fst t' = caps @ fst t \<and> derives_concat res w caps"
proof (induction re t and res t arbitrary: t' and t' rule: backtrack_backtrack_concat.induct)
  case (1 s t)
  then show ?case by (auto simp: HasPrefix_iff split: if_splits)
next
  case (2 cs t)
  then show ?case using plusThreads_sound [of t' cs t] by auto
next
  case (3 i name sub t)
  from "3.prems" obtain u where u: "u \<in> set (backtrack sub t)"
    and eq: "t' = ((i, take (length (snd t) - length (snd u)) (snd t)) # fst u, snd u)"
    by auto
  from "3.IH" [OF u] obtain w caps where
    d: "snd t = w @ snd u" "fst u = caps @ fst t" "derives sub w caps"
    by blast
  have "take (length (snd t) - length (snd u)) (snd t) = w" using d(1) by simp
  with d eq show ?case by auto
next
  case (4 subs t)
  then show ?case by simp
next
  case (5 t)
  then show ?case by simp
next
  case (6 sub subs t)
  from "6.prems" obtain u where u: "u \<in> set (backtrack sub t)"
    and mem: "t' \<in> set (backtrack_concat subs u)"
    by auto
  from "6.IH"(1) [OF u] obtain w1 caps1 where
    d1: "snd t = w1 @ snd u" "fst u = caps1 @ fst t" "derives sub w1 caps1"
    by blast
  from "6.IH"(2) [OF u mem] obtain w2 caps2 where
    d2: "snd u = w2 @ snd t'" "fst t' = caps2 @ fst u" "derives_concat subs w2 caps2"
    by blast
  have "snd t = (w1 @ w2) @ snd t'" "fst t' = (caps2 @ caps1) @ fst t"
    using d1 d2 by simp_all
  moreover have "derives_concat (sub # subs) (w1 @ w2) (caps2 @ caps1)"
    using d1(3) d2(3) by auto
  ultimately show ?case by blast
qed

lemma search_sound:
  "search re s = Some caps \<Longrightarrow>
     \<exists>w caps'. caps = (0, w) # caps' \<and> derives re w caps'"
proof (induction s)
  case Nil
  then obtain t ts where bt: "backtrack re ([], []) = t # ts" and c: "caps = (0, []) # fst t"
    by (auto split: list.splits)
  then have "t \<in> set (backtrack re ([], []))" by simp
  from backtrack_sound [OF this] c show ?case by auto
next
  case (Cons c cs)
  show ?case
  proof (cases "backtrack re ([], c # cs)")
    case Nil
    with Cons show ?thesis by simp
  next
    case (Cons t ts)
    then have m: "t \<in> set (backtrack re ([], c # cs))" by simp
    from backtrack_sound [OF m] obtain w caps' where
      d: "c # cs = w @ snd t" "fst t = caps'" "derives re w caps'"
      by auto
    have "take (length (c # cs) - length (snd t)) (c # cs) =
            take (length (w @ snd t) - length (snd t)) (w @ snd t)"
      by (simp only: d(1))
    then have "take (length (c # cs) - length (snd t)) (c # cs) = w"
      by simp
    moreover have "caps = (0, take (length (c # cs) - length (snd t)) (c # cs)) # fst t"
      using Cons Cons.prems by simp
    ultimately have "caps = (0, w) # caps'" using d(2) by simp
    with d(3) show ?thesis by blast
  qed
qed

section \<open>Properties of the parsers\<close>

lemma parseLine_no_error: "parseLine p l = Inr (r, e) \<Longrightarrow> e = None"
  by (auto simp: parseLine_def bind_def Let_def split: sum.splits prod.splits)

lemma parseLines_no_error: "parseLines p ls acc = Inr (rs, e) \<Longrightarrow> e = None"
  by (induction ls arbitrary: acc)
    (auto split: sum.splits prod.splits option.splits dest: parseLine_no_error)

lemma tryParsers_all_fail:
  "\<forall>q \<in> set ps. \<exists>r e. q output = Inr (r, Some e) \<Longrightarrow>
   tryParsers ps output = Inr ([], Some (errors_New ''no parser could parse the output''))"
  by (induction ps) auto

lemma tryParsers_first_success:
  "\<forall>q \<in> set pre. \<exists>r e. q output = Inr (r, Some e) \<Longrightarrow> parser output = Inr (partitions, None) \<Longrightarrow>
   tryParsers (pre @ parser # post) output = Inr (partitions, None)"
  by (induction pre) auto

lemma regexpParser_Parse_empty:
  "regexpParser_Parse p [] =
     (if MatchString (header p) [] then Inr ([], None) else Inr ([], Some (errors_New ''incorrect header'')))"
  by (simp add: regexpParser_Parse_def bind_def index_def)

lemma regexpParser_Parse_error:
  assumes "regexpParser_Parse p output = Inr (rs, Some e)"
  shows "e = errors_New ''incorrect header'' \<and> rs = []"
proof -
  obtain l ls where sp: "Split output newline = l # ls"
    using Split_not_Nil [of "output" newline] by (cases "Split output newline") auto
  show ?thesis
  proof (cases "MatchString (header p) l")
    case True
    with sp assms have "parseLines p ls [] = Inr (rs, Some e)"
      by (simp add: regexpParser_Parse_def bind_def index_def)
    then show ?thesis using parseLines_no_error by blast
  next
    case False
    with sp assms show ?thesis
      by (simp add: regexpParser_Parse_def bind_def index_def)
  qed
qed


lemma checkFields_None: "checkFields fs m = None \<longleftrightarrow> set fs \<subseteq> dom m"
  by (induction fs) auto

lemma dom_indexNames: "dom (indexNames names i m) = dom m \<union> set names"
  by (induction names arbitrary: i m) auto

lemma checkFields_Some: "(\<exists>e. checkFields fs m = Some e) \<longleftrightarrow> \<not> set fs \<subseteq> dom m"
  using checkFields_None [of fs m] by auto

lemma newRegexpParser_ok:
  assumes "set requiredFields \<subseteq> set (SubexpNames ln)"
  shows "newRegexpParser hdr ln =
           Inr \<lparr>header = hdr, line = ln, indexByName = indexNames (SubexpNames ln) 0 Map.empty\<rparr>"
proof -
  have "checkFields requiredFields (indexNames (SubexpNames ln) 0 Map.empty) = None"
    using assms by (simp add: checkFields_None dom_indexNames)
  then show ?thesis by (simp add: newRegexpParser_def)
qed

lemma newRegexpParser_fail:
  assumes "\<not> set requiredFields \<subseteq> set (SubexpNames ln)"
  shows "\<exists>err. newRegexpParser hdr ln = Inl err"
proof -
  have "\<exists>e. checkFields requiredFields (indexNames (SubexpNames ln) 0 Map.empty) = Some e"
    using assms by (simp add: checkFields_Some dom_indexNames)
  then show ?thesis by (auto simp: newRegexpParser_def)
qed

lemma newRegexpParser_Inr:
  assumes "newRegexpParser hdr ln = Inr p"
  shows "set requiredFields \<subseteq> set (SubexpNames ln)"
    and "p = \<lparr>header = hdr, line = ln, indexByName = indexNames (SubexpNames ln) 0 Map.empty\<rparr>"
proof -
  show sub: "set requiredFields \<subseteq> set (SubexpNames ln)"
  proof (rule ccontr)
    assume "\<not> set requiredFields \<subseteq> set (SubexpNames ln)"
    then obtain err where "newRegexpParser hdr ln = Inl err"
      using newRegexpParser_fail by blast
    with assms show False by simp
  qed
  show "p = \<lparr>header = hdr, line = ln, indexByName = indexNames (SubexpNames ln) 0 Map.empty\<rparr>"
    using newRegexpParser_ok [OF sub, of hdr] assms by simp
qed

lemma names_0_10_2_1: "SubexpNames line_0_10_2_1 = [[], ''topic'', ''partitionId'', ''currentOffset'', ''lag'', ''consumerId'', ''consumerAddress'', ''clientId'']"
  by code_simp
lemma names_0_10_0_1: "SubexpNames line_0_10_0_1 = [[], ''topic'', ''partitionId'', ''currentOffset'', ''lag'', ''clientId'', ''consumerAddress'']"
  by code_simp
lemma names_0_9_0_1: "SubexpNames line_0_9_0_1 = [[], ''topic'', ''partitionId'', ''currentOffset'', ''lag'', ''clientId'', ''consumerAddress'']"
  by code_simp


lemma required_0_10_2_1: "set requiredFields \<subseteq> set (SubexpNames line_0_10_2_1)"
  unfolding names_0_10_2_1 requiredFields_def by simp

lemma required_0_10_0_1: "set requiredFields \<subseteq> set (SubexpNames line_0_10_0_1)"
  unfolding names_0_10_0_1 requiredFields_def by simp

lemma required_0_9_0_1: "set requiredFields \<subseteq> set (SubexpNames line_0_9_0_1)"
  unfolding names_0_9_0_1 requiredFields_def by simp

lemma built_0_10_2_1:
  "kafka0_10_2_1DescribeGroupParser =
     Inr \<lparr>header = header_0_10_2_1, line = line_0_10_2_1,
          indexByName = indexNames (SubexpNames line_0_10_2_1) 0 Map.empty\<rparr>"
  by (simp add: kafka0_10_2_1DescribeGroupParser_def mustBuildNewRegexpParser_def
      newRegexpParser_ok [OF required_0_10_2_1])

lemma built_0_10_0_1:
  "kafka0_10_0_1DescribeGroupParser =
     Inr \<lparr>header = header_0_10_0_1, line = line_0_10_0_1,
          indexByName = indexNames (SubexpNames line_0_10_0_1) 0 Map.empty\<rparr>"
  by (simp add: kafka0_10_0_1DescribeGroupParser_def mustBuildNewRegexpParser_def
      newRegexpParser_ok [OF required_0_10_0_1])

lemma built_0_9_0_1:
  "kafka0_9_0_1DescribeGroupParser =
     Inr \<lparr>header = header_0_9_0_1, line = line_0_9_0_1,
          indexByName = indexNames (SubexpNames line_0_9_0_1) 0 Map.empty\<rparr>"
  by (simp add: kafka0_9_0_1DescribeGroupParser_def mustBuildNewRegexpParser_def
      newRegexpParser_ok [OF required_0_9_0_1])

section \<open>What the line patterns capture\<close>

lemma perl_d_isDigit: "matchesSet perl_d = isDigit"
  by (rule ext) (simp add: perl_d_def inRange_def isDigit_def)

lemma upt_8: "[0..<Suc 7] = [0, 1, 2, 3, 4, 5, 6, 7]"
  by (simp add: upt_rec)

lemma upt_7: "[0..<Suc 6] = [0, 1, 2, 3, 4, 5, 6]"
  by (simp add: upt_rec)

lemma NumSubexp_builtin:
  "NumSubexp line_0_10_2_1 = 7" "NumSubexp line_0_10_0_1 = 6" "NumSubexp line_0_9_0_1 = 6"
  by code_simp+

lemma derives_0_10_2_1:
  assumes "derives line_0_10_2_1 w caps"
  shows "\<exists>x1 x2 x3 x4 x5 x6 x7.
     caps = [(7, x7), (6, x6), (5, x5), (4, x4), (3, x3), (2, x2), (1, x1)]
     \<and> x1 \<noteq> [] \<and> x3 \<noteq> [] \<and> list_all isDigit x3 \<and> x4 \<noteq> [] \<and> list_all isDigit x4"
  using assms unfolding line_0_10_2_1_def by (auto simp: perl_d_isDigit)

lemma derives_0_10_0_1:
  assumes "derives line_0_10_0_1 w caps"
  shows "\<exists>x1 x2 x3 x4 x5 x6.
     caps = [(6, x6), (5, x5), (4, x4), (3, x3), (2, x2), (1, x1)]
     \<and> x1 \<noteq> [] \<and> x3 \<noteq> [] \<and> list_all isDigit x3 \<and> x4 \<noteq> [] \<and> list_all isDigit x4"
  using assms unfolding line_0_10_0_1_def by (auto simp: perl_d_isDigit)

lemma derives_0_9_0_1:
  assumes "derives line_0_9_0_1 w caps"
  shows "\<exists>x1 x2 x3 x4 x5 x6.
     caps = [(6, x6), (5, x5), (4, x4), (3, x3), (2, x2), (1, x1)]
     \<and> x1 \<noteq> [] \<and> x3 \<noteq> [] \<and> list_all isDigit x3 \<and> x4 \<noteq> [] \<and> list_all isDigit x4"
  using assms unfolding line_0_9_0_1_def by (auto simp: perl_d_isDigit)

lemma FindStringSubmatch_search:
  "FindStringSubmatch re s \<noteq> [] \<Longrightarrow> \<exists>caps. search re s = Some caps"
  by (cases "search re s") (simp_all add: FindStringSubmatch_def)

lemma builtin_line_shape:
  assumes "ln = line_0_10_2_1 \<or> ln = line_0_10_0_1 \<or> ln = line_0_9_0_1"
    and "FindStringSubmatch ln s \<noteq> []"
  shows "FindStringSubmatch ln s ! 1 \<noteq> []
       \<and> FindStringSubmatch ln s ! 3 \<noteq> [] \<and> list_all isDigit (FindStringSubmatch ln s ! 3)
       \<and> FindStringSubmatch ln s ! 4 \<noteq> [] \<and> list_all isDigit (FindStringSubmatch ln s ! 4)"
proof -
  from assms(2) obtain caps where c: "search ln s = Some caps"
    using FindStringSubmatch_search by blast
  from search_sound [OF c] obtain w caps' where
    d: "caps = (0, w) # caps'" "derives ln w caps'" by blast
  from assms(1) show ?thesis
  proof (elim disjE)
    assume l: "ln = line_0_10_2_1"
    with d(2) derives_0_10_2_1 obtain x1 x2 x3 x4 x5 x6 x7 where
      "caps' = [(7, x7), (6, x6), (5, x5), (4, x4), (3, x3), (2, x2), (1, x1)]"
      "x1 \<noteq> []" "x3 \<noteq> []" "list_all isDigit x3" "x4 \<noteq> []" "list_all isDigit x4"
      by blast
    with c d(1) l show ?thesis
      by (simp add: FindStringSubmatch_def NumSubexp_builtin upt_8)
  next
    assume l: "ln = line_0_10_0_1"
    with d(2) derives_0_10_0_1 obtain x1 x2 x3 x4 x5 x6 where
      "caps' = [(6, x6), (5, x5), (4, x4), (3, x3), (2, x2), (1, x1)]"
      "x1 \<noteq> []" "x3 \<noteq> []" "list_all isDigit x3" "x4 \<noteq> []" "list_all isDigit x4"
      by blast
    with c d(1) l show ?thesis
      by (simp add: FindStringSubmatch_def NumSubexp_builtin upt_7)
  next
    assume l: "ln = line_0_9_0_1"
    with d(2) derives_0_9_0_1 obtain x1 x2 x3 x4 x5 x6 where
      "caps' = [(6, x6), (5, x5), (4, x4), (3, x3), (2, x2), (1, x1)]"
      "x1 \<noteq> []" "x3 \<noteq> []" "list_all isDigit x3" "x4 \<noteq> []" "list_all isDigit x4"
      by blast
    with c d(1) l show ?thesis
      by (simp add: FindStringSubmatch_def NumSubexp_builtin upt_7)
  qed
qed

lemma builtin_index:
  assumes "ln = line_0_10_2_1 \<or> ln = line_0_10_0_1 \<or> ln = line_0_9_0_1"
  shows "lookup (indexNames (SubexpNames ln) 0 Map.empty) ''topic'' = 1"
    and "lookup (indexNames (SubexpNames ln) 0 Map.empty) ''currentOffset'' = 3"
    and "lookup (indexNames (SubexpNames ln) 0 Map.empty) ''lag'' = 4"
  using assms by (auto simp: names_0_10_2_1 names_0_10_0_1 names_0_9_0_1 lookup_def)

lemma length_capNames:
  "length (capNames re names) = length names"
  "length (capNames_subs res names) = length names"
  by (induction re names and res names rule: capNames_capNames_subs.induct) simp_all

lemma length_SubexpNames: "length (SubexpNames re) = Suc (NumSubexp re)"
  by (simp add: SubexpNames_def NumSubexp_def length_capNames)

lemma indexNames_range:
  "indexNames names i m k = Some j \<Longrightarrow> m k = Some j \<or> (i \<le> j \<and> j < i + length names)"
proof (induction names arbitrary: i m)
  case Nil
  then show ?case by simp
next
  case (Cons name names)
  from Cons.IH [OF Cons.prems [simplified]] show ?case
    by (auto split: if_splits)
qed

lemma lookup_indexNames: "lookup (indexNames (SubexpNames re) 0 Map.empty) k \<le> NumSubexp re"
proof (cases "indexNames (SubexpNames re) 0 Map.empty k")
  case None
  then show ?thesis by (simp add: lookup_def)
next
  case (Some j)
  from indexNames_range [OF Some] have "j < length (SubexpNames re)" by simp
  with Some show ?thesis by (simp add: lookup_def length_SubexpNames)
qed

lemma length_FindStringSubmatch:
  "FindStringSubmatch re s \<noteq> [] \<Longrightarrow> length (FindStringSubmatch re s) = Suc (NumSubexp re)"
  by (cases "search re s") (simp_all add: FindStringSubmatch_def)

lemma parseLine_unmatched:
  "FindStringSubmatch (line p) l = [] \<Longrightarrow>
   parseLine p l = Inl (IndexOutOfRange (lookup (indexByName p) ''currentOffset'') 0)"
  by (simp add: parseLine_def index_def bind_def)

lemma parseLine_matched:
  assumes "FindStringSubmatch (line p) l \<noteq> []"
    and "indexByName p = indexNames (SubexpNames (line p)) 0 Map.empty"
  shows "parseLine p l =
     Inr (\<lparr>Topic = FindStringSubmatch (line p) l ! lookup (indexByName p) ''topic'',
           PartitionID = FindStringSubmatch (line p) l ! lookup (indexByName p) ''partitionId'',
           CurrentOffset =
             fst (parseLong (FindStringSubmatch (line p) l ! lookup (indexByName p) ''currentOffset'')),
           Lag = fst (parseLong (FindStringSubmatch (line p) l ! lookup (indexByName p) ''lag'')),
           ClientID = FindStringSubmatch (line p) l ! lookup (indexByName p) ''clientId'',
           ConsumerAddress =
             FindStringSubmatch (line p) l ! lookup (indexByName p) ''consumerAddress''\<rparr>, None)"
proof -
  have "lookup (indexByName p) k < length (FindStringSubmatch (line p) l)" for k
    using lookup_indexNames [of "line p" k] length_FindStringSubmatch [OF assms(1)] assms(2)
    by simp
  then have "index (FindStringSubmatch (line p) l) (lookup (indexByName p) k) =
      Inr (FindStringSubmatch (line p) l ! lookup (indexByName p) k)" for k
    by (simp add: index_def)
  then show ?thesis
    by (simp add: parseLine_def bind_def Let_def split: prod.splits)
qed

lemma parseLines_all2:
  "parseLines p ls acc = Inr (rs, e) \<Longrightarrow>
   \<exists>recs. rs = acc @ recs \<and> list_all2 (\<lambda>l r. parseLine p l = Inr (r, None)) ls recs"
proof (induction ls arbitrary: acc)
  case Nil
  then show ?case by simp
next
  case (Cons l ls)
  from Cons.prems obtain r where r: "parseLine p l = Inr (r, None)"
    and rest: "parseLines p ls (acc @ [r]) = Inr (rs, e)"
    by (auto split: sum.splits prod.splits option.splits dest: parseLine_no_error)
  from Cons.IH [OF rest] obtain recs where
    "rs = (acc @ [r]) @ recs" "list_all2 (\<lambda>l r. parseLine p l = Inr (r, None)) ls recs"
    by blast
  then have "rs = acc @ (r # recs)"
    "list_all2 (\<lambda>l r. parseLine p l = Inr (r, None)) (l # ls) (r # recs)"
    using r by simp_all
  then show ?case by blast
qed

lemma regexpParser_Parse_all2:
  assumes "regexpParser_Parse p output = Inr (records, None)"
  shows "list_all2 (\<lambda>l r. parseLine p l = Inr (r, None)) (drop 1 (Split output newline)) records"
proof -
  obtain l ls where sp: "Split output newline = l # ls"
    using Split_not_Nil [of "output" newline] by (cases "Split output newline") auto
  with assms have "parseLines p ls [] = Inr (records, None)"
    by (simp add: regexpParser_Parse_def bind_def index_def split: if_splits)
  from parseLines_all2 [OF this] sp show ?thesis by simp
qed

text \<open>A line that the line pattern does not match ends \<open>Parse\<close> in a panic, wherever it stands
  after a header that matched.\<close>

lemma parseLines_unmatched:
  assumes "l \<in> set ls" and "FindStringSubmatch (line p) l = []"
  shows "\<exists>i n. parseLines p ls acc = Inl (IndexOutOfRange i n)"
  using assms
proof (induction ls arbitrary: acc)
  case Nil
  then show ?case by simp
next
  case (Cons x xs)
  show ?case
  proof (cases "FindStringSubmatch (line p) x = []")
    case True
    from parseLine_unmatched [OF True] show ?thesis by simp
  next
    case False
    with Cons.prems have mem: "l \<in> set xs" by auto
    show ?thesis
    proof (cases "parseLine p x")
      case (Inl a)
      then have "\<exists>i n. a = IndexOutOfRange i n"
        by (auto simp: parseLine_def bind_def index_def Let_def split: if_splits prod.splits)
      with Inl show ?thesis by auto
    next
      case (Inr re)
      obtain r e where re: "re = (r, e)" by (cases re)
      with Inr parseLine_no_error have "e = None" by blast
      with Inr re Cons.IH [OF mem Cons.prems(2), of "acc @ [r]"] show ?thesis by simp
    qed
  qed
qed

lemma regexpParser_Parse_unmatched:
  assumes "Split output newline = h # ls" and "MatchString (header p) h"
    and "l \<in> set ls" and "FindStringSubmatch (line p) l = []"
  shows "\<exists>i n. regexpParser_Parse p output = Inl (IndexOutOfRange i n)"
  using assms(1,2) parseLines_unmatched [OF assms(3,4), of "[]"]
  by (simp add: regexpParser_Parse_def bind_def index_def)

section \<open>Claims\<close>

text \<open>
  C5. The default parser, given the header line of the 0.10.2.1 format followed by the one
  detail line \<open>orders 0 105 110 5 consumer-1-abc /10.0.0.5 app-client-1\<close>, returns exactly one
  record and no error: topic \<open>orders\<close>, partition \<open>0\<close>, current offset 105, lag 5, client id
  \<open>app-client-1\<close>, consumer address \<open>/10.0.0.5\<close>.
\<close>

theorem DefaultParser_example:
  "bind DefaultParser (\<lambda>d. DelegatingParser_Parse d example_output) =
     Inr ([\<lparr>Topic = ''orders'', PartitionID = ''0'', CurrentOffset = 105, Lag = 5,
             ClientID = ''app-client-1'', ConsumerAddress = ''/10.0.0.5''\<rparr>], None)"
  by code_simp

text \<open>
  C6. Whatever stands before and after it, an output that contains
  \<open>java.lang.RuntimeException\<close> makes \<open>parseGroups\<close> return no group and the error whose text is
  the fixed prefix followed by the whole output.
\<close>

theorem parseGroups_runtime_error:
  "parseGroups (a @ ''java.lang.RuntimeException'' @ b) =
     ([], Some (errorString (''Got runtime error when executing script. Output: '' @
                              a @ ''java.lang.RuntimeException'' @ b)))"
  unfolding parseGroups_def using Contains_append [of a "''java.lang.RuntimeException''" b]
  by simp

text \<open>
  C7. An output that does not contain \<open>java.lang.RuntimeException\<close> makes \<open>parseGroups\<close> return
  no error and exactly the non-empty lines of the output, unchanged and in their order; their
  number is the number of non-empty lines.
\<close>

theorem parseGroups_nonempty_lines:
  assumes "\<not> Contains output ''java.lang.RuntimeException''"
  shows "parseGroups output = (filter (\<lambda>l. l \<noteq> []) (Split output newline), None)
       \<and> length (fst (parseGroups output)) =
           length (Split output newline) - count_list (Split output newline) []"
proof -
  have eq: "parseGroups output = (filter (\<lambda>l. l \<noteq> []) (Split output newline), None)"
    using assms by (simp add: parseGroups_def parseGroups_loop_filter)
  have "length (filter (\<lambda>l. l \<noteq> []) xs) = length xs - count_list xs []" for xs :: "string list"
    by (induction xs) (auto simp: Suc_diff_le count_le_length)
  with eq show ?thesis by simp
qed

theorem parseGroups_nonempty_lines_witness:
  "\<not> Contains (''group-a'' @ [newline, newline] @ ''group-b'' @ [newline])
       ''java.lang.RuntimeException''
   \<and> parseGroups (''group-a'' @ [newline, newline] @ ''group-b'' @ [newline]) =
       ([''group-a'', ''group-b''], None)"
proof -
  have h: "\<not> Contains (''group-a'' @ [newline, newline] @ ''group-b'' @ [newline])
             ''java.lang.RuntimeException''"
    by code_simp
  have "filter (\<lambda>l. l \<noteq> []) (Split (''group-a'' @ [newline, newline] @ ''group-b'' @ [newline]) newline)
          = [''group-a'', ''group-b'']"
    by code_simp
  with h parseGroups_nonempty_lines [OF h] show ?thesis by simp
qed

text \<open>
  C3. \<open>DelegatingParser.Parse\<close> gives every parser the same output, in the order of the list.
  When the parsers before one all return an error and that one returns a result without error,
  this result is returned, whatever parsers follow it in the list. When every parser returns an
  error, the result is no records and the one error \<open>no parser could parse the output\<close>.
\<close>

theorem DelegatingParser_Parse_order:
  "((\<forall>q \<in> set pre. \<exists>r e. q output = Inr (r, Some e)) \<and> parser output = Inr (partitions, None)
      \<longrightarrow> DelegatingParser_Parse \<lparr>Parsers = pre @ parser # post\<rparr> output = Inr (partitions, None))
   \<and> ((\<forall>q \<in> set ps. \<exists>r e. q output = Inr (r, Some e))
      \<longrightarrow> DelegatingParser_Parse \<lparr>Parsers = ps\<rparr> output =
            Inr ([], Some (errors_New ''no parser could parse the output'')))"
  by (simp add: DelegatingParser_Parse_def tryParsers_all_fail tryParsers_first_success)

theorem DelegatingParser_Parse_order_witness:
  "bind kafka0_9_0_1DescribeGroupParser (\<lambda>p. regexpParser_Parse p example_output) =
     Inr ([], Some (errors_New ''incorrect header''))
   \<and> bind kafka0_10_0_1DescribeGroupParser (\<lambda>p. regexpParser_Parse p example_output) =
     Inr ([], Some (errors_New ''incorrect header''))
   \<and> bind kafka0_10_2_1DescribeGroupParser (\<lambda>p. regexpParser_Parse p example_output) =
     Inr ([\<lparr>Topic = ''orders'', PartitionID = ''0'', CurrentOffset = 105, Lag = 5,
             ClientID = ''app-client-1'', ConsumerAddress = ''/10.0.0.5''\<rparr>], None)
   \<and> bind DefaultParser (\<lambda>d. DelegatingParser_Parse d example_output) =
     Inr ([\<lparr>Topic = ''orders'', PartitionID = ''0'', CurrentOffset = 105, Lag = 5,
             ClientID = ''app-client-1'', ConsumerAddress = ''/10.0.0.5''\<rparr>], None)
   \<and> bind kafka0_9_0_1DescribeGroupParser (\<lambda>p. regexpParser_Parse p ''Error: no such group'') =
     Inr ([], Some (errors_New ''incorrect header''))
   \<and> bind kafka0_10_0_1DescribeGroupParser (\<lambda>p. regexpParser_Parse p ''Error: no such group'') =
     Inr ([], Some (errors_New ''incorrect header''))
   \<and> bind kafka0_10_2_1DescribeGroupParser (\<lambda>p. regexpParser_Parse p ''Error: no such group'') =
     Inr ([], Some (errors_New ''incorrect header''))
   \<and> bind DefaultParser (\<lambda>d. DelegatingParser_Parse d ''Error: no such group'') =
     Inr ([], Some (errors_New ''no parser could parse the output''))"
proof -
  define p1 where "p1 = \<lparr>header = header_0_9_0_1, line = line_0_9_0_1,
    indexByName = indexNames (SubexpNames line_0_9_0_1) 0 Map.empty\<rparr>"
  define p2 where "p2 = \<lparr>header = header_0_10_0_1, line = line_0_10_0_1,
    indexByName = indexNames (SubexpNames line_0_10_0_1) 0 Map.empty\<rparr>"
  define p3 where "p3 = \<lparr>header = header_0_10_2_1, line = line_0_10_2_1,
    indexByName = indexNames (SubexpNames line_0_10_2_1) 0 Map.empty\<rparr>"
  define rec where "rec = \<lparr>Topic = ''orders'', PartitionID = ''0'', CurrentOffset = 105, Lag = 5,
             ClientID = ''app-client-1'', ConsumerAddress = ''/10.0.0.5''\<rparr>"
  have k: "kafka0_9_0_1DescribeGroupParser = Inr p1" "kafka0_10_0_1DescribeGroupParser = Inr p2"
    "kafka0_10_2_1DescribeGroupParser = Inr p3"
    by (simp_all add: p1_def p2_def p3_def built_0_9_0_1 built_0_10_0_1 built_0_10_2_1)
  have d: "DefaultParser =
      Inr \<lparr>Parsers = [regexpParser_Parse p1, regexpParser_Parse p2] @ regexpParser_Parse p3 # []\<rparr>"
    by (simp add: DefaultParser_def k bind_def)
  have a1: "regexpParser_Parse p1 example_output = Inr ([], Some (errors_New ''incorrect header''))"
    unfolding p1_def by code_simp
  have a2: "regexpParser_Parse p2 example_output = Inr ([], Some (errors_New ''incorrect header''))"
    unfolding p2_def by code_simp
  have a3: "regexpParser_Parse p3 example_output = Inr ([rec], None)"
    unfolding p3_def rec_def by code_simp
  have b1: "regexpParser_Parse p1 ''Error: no such group'' = Inr ([], Some (errors_New ''incorrect header''))"
    unfolding p1_def by code_simp
  have b2: "regexpParser_Parse p2 ''Error: no such group'' = Inr ([], Some (errors_New ''incorrect header''))"
    unfolding p2_def by code_simp
  have b3: "regexpParser_Parse p3 ''Error: no such group'' = Inr ([], Some (errors_New ''incorrect header''))"
    unfolding p3_def by code_simp
  have first: "DelegatingParser_Parse
      \<lparr>Parsers = [regexpParser_Parse p1, regexpParser_Parse p2] @ regexpParser_Parse p3 # []\<rparr>
      example_output = Inr ([rec], None)"
    using DelegatingParser_Parse_order
      [of "[regexpParser_Parse p1, regexpParser_Parse p2]" example_output "regexpParser_Parse p3" "[rec]" "[]"]
      a1 a2 a3 by simp
  have none: "DelegatingParser_Parse
      \<lparr>Parsers = [regexpParser_Parse p1, regexpParser_Parse p2, regexpParser_Parse p3]\<rparr>
      ''Error: no such group'' = Inr ([], Some (errors_New ''no parser could parse the output''))"
    using DelegatingParser_Parse_order
      [of "[]" "''Error: no such group''" "regexpParser_Parse p3" "[]" "[]"
          "[regexpParser_Parse p1, regexpParser_Parse p2, regexpParser_Parse p3]"]
      b1 b2 b3 by simp
  from first none show ?thesis
    unfolding d k by (simp add: bind_def a1 a2 a3 b1 b2 b3 rec_def)
qed

text \<open>
  C10. \<open>Split\<close> returns at least one line for every output, so \<open>regexpParser.Parse\<close> returns
  the error \<open>empty output\<close> for no output at all. On the empty output the only line is the empty
  one; a parser whose header pattern does not match it returns \<open>incorrect header\<close>, and so do
  the three parsers of the package.
\<close>

theorem regexpParser_Parse_never_empty_output:
  "length (Split output newline) \<ge> 1
   \<and> regexpParser_Parse p output \<noteq> Inr (partitions, Some (errors_New ''empty output''))
   \<and> (\<not> MatchString (header p) [] \<longrightarrow>
        regexpParser_Parse p [] = Inr ([], Some (errors_New ''incorrect header'')))
   \<and> bind kafka0_10_2_1DescribeGroupParser (\<lambda>q. regexpParser_Parse q []) =
        Inr ([], Some (errors_New ''incorrect header''))
   \<and> bind kafka0_10_0_1DescribeGroupParser (\<lambda>q. regexpParser_Parse q []) =
        Inr ([], Some (errors_New ''incorrect header''))
   \<and> bind kafka0_9_0_1DescribeGroupParser (\<lambda>q. regexpParser_Parse q []) =
        Inr ([], Some (errors_New ''incorrect header''))"
proof -
  have 1: "length (Split output newline) \<ge> 1"
    using Split_not_Nil [of "output" newline] by (cases "Split output newline") simp_all
  have 2: "regexpParser_Parse p output \<noteq> Inr (partitions, Some (errors_New ''empty output''))"
    using regexpParser_Parse_error [of p "output" partitions "errors_New ''empty output''"]
    by (auto simp: errors_New_def)
  have 3: "\<not> MatchString header_0_10_2_1 []" "\<not> MatchString header_0_10_0_1 []"
    "\<not> MatchString header_0_9_0_1 []"
    by code_simp+
  from 1 2 3 show ?thesis
    by (simp add: regexpParser_Parse_empty built_0_10_2_1 built_0_10_0_1 built_0_9_0_1 bind_def)
qed

theorem regexpParser_Parse_never_empty_output_witness:
  "\<not> MatchString (header \<lparr>header = header_0_9_0_1, line = line_0_9_0_1,
          indexByName = indexNames (SubexpNames line_0_9_0_1) 0 Map.empty\<rparr>) []
   \<and> regexpParser_Parse \<lparr>header = header_0_9_0_1, line = line_0_9_0_1,
          indexByName = indexNames (SubexpNames line_0_9_0_1) 0 Map.empty\<rparr> [] =
       Inr ([], Some (errors_New ''incorrect header''))"
proof -
  have h: "\<not> MatchString header_0_9_0_1 []"
    by code_simp
  then show ?thesis
    using regexpParser_Parse_never_empty_output
      [of "[]" "\<lparr>header = header_0_9_0_1, line = line_0_9_0_1,
            indexByName = indexNames (SubexpNames line_0_9_0_1) 0 Map.empty\<rparr>" "[]"]
    by simp
qed

text \<open>
  C4. \<open>newRegexpParser\<close> returns an error exactly when one of the six names \<open>topic\<close>,
  \<open>partitionId\<close>, \<open>currentOffset\<close>, \<open>lag\<close>, \<open>clientId\<close>, \<open>consumerAddress\<close> is not among the
  names of the capture groups of the line pattern; the error is the result of the construction,
  and a parser that was constructed maps all six names. The three parsers of the package are
  constructed, and each maps all six names.
\<close>

theorem newRegexpParser_fails_iff:
  "((\<exists>err. newRegexpParser hdr ln = Inl err) \<longleftrightarrow>
      (\<exists>field \<in> {''topic'', ''partitionId'', ''currentOffset'', ''lag'', ''clientId'',
                   ''consumerAddress''}. field \<notin> set (SubexpNames ln)))
   \<and> (\<forall>p. newRegexpParser hdr ln = Inr p \<longrightarrow>
         header p = hdr \<and> line p = ln
         \<and> {''topic'', ''partitionId'', ''currentOffset'', ''lag'', ''clientId'',
             ''consumerAddress''} \<subseteq> dom (indexByName p))
   \<and> (\<exists>p. kafka0_10_2_1DescribeGroupParser = Inr p
          \<and> {''topic'', ''partitionId'', ''currentOffset'', ''lag'', ''clientId'',
              ''consumerAddress''} \<subseteq> dom (indexByName p))
   \<and> (\<exists>p. kafka0_10_0_1DescribeGroupParser = Inr p
          \<and> {''topic'', ''partitionId'', ''currentOffset'', ''lag'', ''clientId'',
              ''consumerAddress''} \<subseteq> dom (indexByName p))
   \<and> (\<exists>p. kafka0_9_0_1DescribeGroupParser = Inr p
          \<and> {''topic'', ''partitionId'', ''currentOffset'', ''lag'', ''clientId'',
              ''consumerAddress''} \<subseteq> dom (indexByName p))"
proof -
  have six: "set requiredFields =
      {''topic'', ''partitionId'', ''currentOffset'', ''lag'', ''clientId'', ''consumerAddress''}"
    by (simp add: requiredFields_def)
  have 1: "(\<exists>err. newRegexpParser hdr ln = Inl err) \<longleftrightarrow>
      (\<exists>field \<in> set requiredFields. field \<notin> set (SubexpNames ln))"
  proof (cases "set requiredFields \<subseteq> set (SubexpNames ln)")
    case True
    then show ?thesis using newRegexpParser_ok [OF True, of hdr] by auto
  next
    case False
    then show ?thesis using newRegexpParser_fail [OF False, of hdr] by auto
  qed
  have 2: "header p = hdr \<and> line p = ln \<and> set requiredFields \<subseteq> dom (indexByName p)"
    if "newRegexpParser hdr ln = Inr p" for p
    using newRegexpParser_Inr [OF that] by (simp add: dom_indexNames)
  have 3: "\<exists>p. kafka0_10_2_1DescribeGroupParser = Inr p \<and> set requiredFields \<subseteq> dom (indexByName p)"
    unfolding built_0_10_2_1 using required_0_10_2_1 by (simp add: dom_indexNames)
  have 4: "\<exists>p. kafka0_10_0_1DescribeGroupParser = Inr p \<and> set requiredFields \<subseteq> dom (indexByName p)"
    unfolding built_0_10_0_1 using required_0_10_0_1 by (simp add: dom_indexNames)
  have 5: "\<exists>p. kafka0_9_0_1DescribeGroupParser = Inr p \<and> set requiredFields \<subseteq> dom (indexByName p)"
    unfolding built_0_9_0_1 using required_0_9_0_1 by (simp add: dom_indexNames)
  have "((\<exists>err. newRegexpParser hdr ln = Inl err) \<longleftrightarrow>
          (\<exists>field \<in> set requiredFields. field \<notin> set (SubexpNames ln)))
      \<and> (\<forall>p. newRegexpParser hdr ln = Inr p \<longrightarrow>
            header p = hdr \<and> line p = ln \<and> set requiredFields \<subseteq> dom (indexByName p))
      \<and> (\<exists>p. kafka0_10_2_1DescribeGroupParser = Inr p \<and> set requiredFields \<subseteq> dom (indexByName p))
      \<and> (\<exists>p. kafka0_10_0_1DescribeGroupParser = Inr p \<and> set requiredFields \<subseteq> dom (indexByName p))
      \<and> (\<exists>p. kafka0_9_0_1DescribeGroupParser = Inr p \<and> set requiredFields \<subseteq> dom (indexByName p))"
    using 1 2 3 4 5 by blast
  then show ?thesis unfolding six .
qed

theorem newRegexpParser_fails_iff_witness:
  "(\<exists>err. newRegexpParser header_0_9_0_1
       (OpConcat [OpCapture 1 ''partitionId'' (OpPlus perl_d), OpLiteral '', '',
                  OpCapture 2 ''currentOffset'' (OpPlus perl_d), OpLiteral '', '',
                  OpCapture 3 ''lag'' (OpPlus perl_d), OpLiteral '', '',
                  OpCapture 4 ''clientId'' (OpPlus AnyCharNotNL), OpLiteral ''_/'',
                  OpCapture 5 ''consumerAddress'' (OpPlus AnyCharNotNL)]) = Inl err)
   \<and> ''topic'' \<notin> set (SubexpNames
       (OpConcat [OpCapture 1 ''partitionId'' (OpPlus perl_d), OpLiteral '', '',
                  OpCapture 2 ''currentOffset'' (OpPlus perl_d), OpLiteral '', '',
                  OpCapture 3 ''lag'' (OpPlus perl_d), OpLiteral '', '',
                  OpCapture 4 ''clientId'' (OpPlus AnyCharNotNL), OpLiteral ''_/'',
                  OpCapture 5 ''consumerAddress'' (OpPlus AnyCharNotNL)]))
   \<and> (\<exists>p. newRegexpParser header_0_9_0_1 line_0_9_0_1 = Inr p
          \<and> header p = header_0_9_0_1 \<and> line p = line_0_9_0_1
          \<and> {''topic'', ''partitionId'', ''currentOffset'', ''lag'', ''clientId'',
              ''consumerAddress''} \<subseteq> dom (indexByName p))"
proof -
  let ?bad = "OpConcat [OpCapture 1 ''partitionId'' (OpPlus perl_d), OpLiteral '', '',
                  OpCapture 2 ''currentOffset'' (OpPlus perl_d), OpLiteral '', '',
                  OpCapture 3 ''lag'' (OpPlus perl_d), OpLiteral '', '',
                  OpCapture 4 ''clientId'' (OpPlus AnyCharNotNL), OpLiteral ''_/'',
                  OpCapture 5 ''consumerAddress'' (OpPlus AnyCharNotNL)]"
  have n: "SubexpNames ?bad =
      [[], ''partitionId'', ''currentOffset'', ''lag'', ''clientId'', ''consumerAddress'']"
    by code_simp
  have m: "''topic'' \<notin> set (SubexpNames ?bad)"
    unfolding n by simp
  have ex: "\<exists>field \<in> {''topic'', ''partitionId'', ''currentOffset'', ''lag'', ''clientId'',
                       ''consumerAddress''}. field \<notin> set (SubexpNames ?bad)"
    by (rule bexI [of _ "''topic''"]) (simp_all only: m not_False_eq_True insertI1)
  from conjunct1 [OF newRegexpParser_fails_iff [of header_0_9_0_1 ?bad]] ex
  have bad: "\<exists>err. newRegexpParser header_0_9_0_1 ?bad = Inl err"
    by (rule iffD2)
  obtain p where p: "newRegexpParser header_0_9_0_1 line_0_9_0_1 = Inr p"
    using newRegexpParser_ok [OF required_0_9_0_1] by blast
  note all = conjunct1 [OF conjunct2 [OF newRegexpParser_fails_iff [of header_0_9_0_1 line_0_9_0_1]]]
  from spec [OF all, of p] p
  have q: "header p = header_0_9_0_1 \<and> line p = line_0_9_0_1
          \<and> {''topic'', ''partitionId'', ''currentOffset'', ''lag'', ''clientId'',
              ''consumerAddress''} \<subseteq> dom (indexByName p)"
    by (rule mp)
  have ex2: "\<exists>p. newRegexpParser header_0_9_0_1 line_0_9_0_1 = Inr p
          \<and> header p = header_0_9_0_1 \<and> line p = line_0_9_0_1
          \<and> {''topic'', ''partitionId'', ''currentOffset'', ''lag'', ''clientId'',
              ''consumerAddress''} \<subseteq> dom (indexByName p)"
    by (rule exI [of _ p]) (rule conjI [OF p q])
  show ?thesis
    by (rule conjI [OF bad conjI [OF m ex2]])
qed

text \<open>
  C1, evaluated at an input. The claim asks for an error when a line after a matching header
  does not match the line pattern. With the header of the 0.10.2.1 format followed by the line
  \<open>Consumer group is rebalancing\<close>, \<open>FindStringSubmatch\<close> returns \<open>nil\<close> and the first read,
  at the index 3 of \<open>currentOffset\<close>, panics; no error value is returned.
\<close>

theorem regexpParser_Parse_unmatched_line_panics:
  "bind kafka0_10_2_1DescribeGroupParser (\<lambda>p. regexpParser_Parse p
     (''TOPIC PARTITION CURRENT-OFFSET LOG-END-OFFSET LAG CONSUMER-ID HOST CLIENT-ID'' @ [newline] @
      ''Consumer group is rebalancing'')) = Inl (IndexOutOfRange 3 0)"
  by code_simp

text \<open>
  C9, evaluated at an input. The claim asks for the error \<open>empty output\<close> on an output without
  lines. The empty output is split into one empty line, the guard on the number of lines does
  not fire, and the parser of the 0.10.2.1 format returns \<open>incorrect header\<close>; the default
  parser then reports that no parser could parse the output.
\<close>

theorem regexpParser_Parse_empty_string:
  "Split [] newline = [[]]
   \<and> bind kafka0_10_2_1DescribeGroupParser (\<lambda>p. regexpParser_Parse p []) =
       Inr ([], Some (errors_New ''incorrect header''))
   \<and> errors_New ''incorrect header'' \<noteq> errors_New ''empty output''
   \<and> bind DefaultParser (\<lambda>d. DelegatingParser_Parse d []) =
       Inr ([], Some (errors_New ''no parser could parse the output''))"
  by code_simp

text \<open>
  C2. For a parser that \<open>newRegexpParser\<close> constructed and a line that its line pattern
  matches, \<open>parseLine\<close> returns a record and no error, whatever \<open>strconv.ParseInt\<close> says about
  the two numeric fields: a field whose conversion fails is \<open>-1\<close>, one whose conversion succeeds
  is the converted value, each independently of the other, and the four text fields are the
  captured texts.
\<close>

theorem parseLine_conversion_failure:
  assumes "newRegexpParser hdr ln = Inr p"
    and "FindStringSubmatch (line p) l \<noteq> []"
  shows "\<exists>r. parseLine p l = Inr (r, None)
     \<and> (snd (ParseInt (FindStringSubmatch (line p) l ! lookup (indexByName p) ''currentOffset'')) \<noteq> None
          \<longrightarrow> CurrentOffset r = - 1)
     \<and> (snd (ParseInt (FindStringSubmatch (line p) l ! lookup (indexByName p) ''lag'')) \<noteq> None
          \<longrightarrow> Lag r = - 1)
     \<and> (snd (ParseInt (FindStringSubmatch (line p) l ! lookup (indexByName p) ''currentOffset'')) = None
          \<longrightarrow> CurrentOffset r =
               fst (ParseInt (FindStringSubmatch (line p) l ! lookup (indexByName p) ''currentOffset'')))
     \<and> (snd (ParseInt (FindStringSubmatch (line p) l ! lookup (indexByName p) ''lag'')) = None
          \<longrightarrow> Lag r = fst (ParseInt (FindStringSubmatch (line p) l ! lookup (indexByName p) ''lag'')))
     \<and> Topic r = FindStringSubmatch (line p) l ! lookup (indexByName p) ''topic''
     \<and> PartitionID r = FindStringSubmatch (line p) l ! lookup (indexByName p) ''partitionId''
     \<and> ClientID r = FindStringSubmatch (line p) l ! lookup (indexByName p) ''clientId''
     \<and> ConsumerAddress r = FindStringSubmatch (line p) l ! lookup (indexByName p) ''consumerAddress''"
proof -
  from newRegexpParser_Inr(2) [OF assms(1)]
  have "indexByName p = indexNames (SubexpNames (line p)) 0 Map.empty" by simp
  from parseLine_matched [OF assms(2) this] show ?thesis
    by (auto simp: parseLong_def split: prod.splits option.splits)
qed

theorem parseLine_conversion_failure_witness:
  "\<exists>p. newRegexpParser header_0_10_2_1 line_0_10_2_1 = Inr p
     \<and> FindStringSubmatch (line p) overflow_line \<noteq> []
     \<and> FindStringSubmatch (line p) overflow_line ! lookup (indexByName p) ''currentOffset'' =
         ''99999999999999999999''
     \<and> snd (ParseInt ''99999999999999999999'') \<noteq> None
     \<and> FindStringSubmatch (line p) overflow_line ! lookup (indexByName p) ''lag'' = ''7''
     \<and> ParseInt ''7'' = (7, None)
     \<and> (\<exists>r. parseLine p overflow_line = Inr (r, None) \<and> CurrentOffset r = - 1 \<and> Lag r = 7
            \<and> Topic r = ''orders'')"
proof -
  define p where "p = \<lparr>header = header_0_10_2_1, line = line_0_10_2_1,
    indexByName = indexNames (SubexpNames line_0_10_2_1) 0 Map.empty\<rparr>"
  have b: "newRegexpParser header_0_10_2_1 line_0_10_2_1 = Inr p"
    unfolding p_def by (rule newRegexpParser_ok [OF required_0_10_2_1])
  have m: "FindStringSubmatch (line p) overflow_line =
      [overflow_line, ''orders'', ''1'', ''99999999999999999999'', ''7'', ''consumer-1-abc'',
       ''/10.0.0.5'', ''app-client-1'']"
    unfolding p_def by code_simp
  have i: "lookup (indexByName p) ''currentOffset'' = 3" "lookup (indexByName p) ''lag'' = 4"
    "lookup (indexByName p) ''topic'' = 1"
    unfolding p_def by (simp_all add: builtin_index)
  have c: "snd (ParseInt ''99999999999999999999'') \<noteq> None" "ParseInt ''7'' = (7, None)"
    by code_simp+
  have ne: "FindStringSubmatch (line p) overflow_line \<noteq> []"
    unfolding m by simp
  from parseLine_conversion_failure [OF b ne] obtain r where
    "parseLine p overflow_line = Inr (r, None)" "CurrentOffset r = - 1" "Lag r = 7"
    "Topic r = ''orders''"
    using c by (auto simp: m i)
  with b ne c show ?thesis by (auto simp: m i)
qed

text \<open>
  C8. When one of the three parsers of the package returns records without error, there is one
  record for each line after the header, none is left out; each record has a non-empty topic;
  the captured current offset and lag are non-empty strings of decimal digits, and the field is
  the number they denote when it is below \<open>2 ^ 63\<close> and the sentinel \<open>-1\<close> otherwise.
\<close>

theorem builtin_records_invariant:
  assumes "kafka0_10_2_1DescribeGroupParser = Inr p \<or> kafka0_10_0_1DescribeGroupParser = Inr p
         \<or> kafka0_9_0_1DescribeGroupParser = Inr p"
    and "regexpParser_Parse p output = Inr (records, None)"
  shows "length records = length (Split output newline) - 1
     \<and> (\<forall>k < length records.
          Topic (records ! k) \<noteq> []
        \<and> (let c = FindStringSubmatch (line p) (Split output newline ! Suc k) !
                      lookup (indexByName p) ''currentOffset''
           in c \<noteq> [] \<and> list_all isDigit c
            \<and> CurrentOffset (records ! k) = (if decimal c < 2 ^ 63 then of_nat (decimal c) else - 1))
        \<and> (let c = FindStringSubmatch (line p) (Split output newline ! Suc k) !
                      lookup (indexByName p) ''lag''
           in c \<noteq> [] \<and> list_all isDigit c
            \<and> Lag (records ! k) = (if decimal c < 2 ^ 63 then of_nat (decimal c) else - 1)))"
proof -
  let ?lines = "drop 1 (Split output newline)"
  from assms(1) have ln: "line p = line_0_10_2_1 \<or> line p = line_0_10_0_1 \<or> line p = line_0_9_0_1"
    and ix: "indexByName p = indexNames (SubexpNames (line p)) 0 Map.empty"
    by (auto simp: built_0_10_2_1 built_0_10_0_1 built_0_9_0_1)
  have all2: "list_all2 (\<lambda>l r. parseLine p l = Inr (r, None)) ?lines records"
    using assms(2) by (rule regexpParser_Parse_all2)
  then have len: "length records = length (Split output newline) - 1"
    by (auto dest: list_all2_lengthD)
  have each: "Topic (records ! k) \<noteq> []
        \<and> (let c = FindStringSubmatch (line p) (Split output newline ! Suc k) !
                      lookup (indexByName p) ''currentOffset''
           in c \<noteq> [] \<and> list_all isDigit c
            \<and> CurrentOffset (records ! k) = (if decimal c < 2 ^ 63 then of_nat (decimal c) else - 1))
        \<and> (let c = FindStringSubmatch (line p) (Split output newline ! Suc k) !
                      lookup (indexByName p) ''lag''
           in c \<noteq> [] \<and> list_all isDigit c
            \<and> Lag (records ! k) = (if decimal c < 2 ^ 63 then of_nat (decimal c) else - 1))"
    if k: "k < length records" for k
  proof -
    let ?l = "Split output newline ! Suc k"
    let ?m = "FindStringSubmatch (line p) ?l"
    have nth: "?lines ! k = ?l" using k len by simp
    have pl: "parseLine p ?l = Inr (records ! k, None)"
      using list_all2_nthD2 [OF all2 k] nth by simp
    have ne: "?m \<noteq> []"
    proof
      assume "?m = []"
      from parseLine_unmatched [OF this] pl show False by simp
    qed
    note shape = builtin_line_shape [OF ln ne]
    note idx = builtin_index [OF ln, folded ix]
    from parseLine_matched [OF ne ix] pl
    have r: "Topic (records ! k) = ?m ! 1"
      "CurrentOffset (records ! k) = fst (parseLong (?m ! 3))"
      "Lag (records ! k) = fst (parseLong (?m ! 4))"
      by (auto simp: idx)
    from shape have p3: "parseLong (?m ! 3) =
       (if decimal (?m ! 3) < 2 ^ 63 then (of_nat (decimal (?m ! 3)), None)
        else (- 1, Some (NumError ''ParseInt'' (?m ! 3) ErrRange)))"
      by (intro parseLong_digits) simp_all
    from shape have p4: "parseLong (?m ! 4) =
       (if decimal (?m ! 4) < 2 ^ 63 then (of_nat (decimal (?m ! 4)), None)
        else (- 1, Some (NumError ''ParseInt'' (?m ! 4) ErrRange)))"
      by (intro parseLong_digits) simp_all
    show ?thesis
      using shape by (simp add: r p3 p4 idx Let_def)
  qed
  from len each show ?thesis by blast
qed

theorem builtin_records_invariant_witness:
  "\<exists>p. kafka0_10_2_1DescribeGroupParser = Inr p
     \<and> regexpParser_Parse p overflow_output =
         Inr ([\<lparr>Topic = ''orders'', PartitionID = ''0'', CurrentOffset = 105, Lag = 5,
                 ClientID = ''app-client-1'', ConsumerAddress = ''/10.0.0.5''\<rparr>,
               \<lparr>Topic = ''orders'', PartitionID = ''1'', CurrentOffset = - 1, Lag = 7,
                 ClientID = ''app-client-1'', ConsumerAddress = ''/10.0.0.5''\<rparr>], None)
     \<and> length (Split overflow_output newline) - 1 = 2
     \<and> FindStringSubmatch (line p) (Split overflow_output newline ! Suc 1) !
           lookup (indexByName p) ''currentOffset'' = ''99999999999999999999''
     \<and> \<not> decimal ''99999999999999999999'' < 2 ^ 63
     \<and> FindStringSubmatch (line p) (Split overflow_output newline ! Suc 1) !
           lookup (indexByName p) ''lag'' = ''7''
     \<and> decimal ''7'' = 7"
proof -
  define p where "p = \<lparr>header = header_0_10_2_1, line = line_0_10_2_1,
    indexByName = indexNames (SubexpNames line_0_10_2_1) 0 Map.empty\<rparr>"
  define records where "records =
    [\<lparr>Topic = ''orders'', PartitionID = ''0'', CurrentOffset = 105, Lag = 5,
       ClientID = ''app-client-1'', ConsumerAddress = ''/10.0.0.5''\<rparr>,
     \<lparr>Topic = ''orders'', PartitionID = ''1'', CurrentOffset = - 1 :: int64, Lag = 7,
       ClientID = ''app-client-1'', ConsumerAddress = ''/10.0.0.5''\<rparr>]"
  have b: "kafka0_10_2_1DescribeGroupParser = Inr p"
    unfolding p_def by (rule built_0_10_2_1)
  have e: "regexpParser_Parse p overflow_output = Inr (records, None)"
    unfolding p_def records_def by code_simp
  have s: "Split overflow_output newline ! Suc 1 = overflow_line"
    by code_simp
  have m: "FindStringSubmatch (line p) overflow_line =
      [overflow_line, ''orders'', ''1'', ''99999999999999999999'', ''7'', ''consumer-1-abc'',
       ''/10.0.0.5'', ''app-client-1'']"
    unfolding p_def by code_simp
  have i: "lookup (indexByName p) ''currentOffset'' = 3" "lookup (indexByName p) ''lag'' = 4"
    unfolding p_def by (simp_all add: builtin_index)
  note inv = builtin_records_invariant [OF disjI1 [OF b] e]
  have d: "\<not> decimal ''99999999999999999999'' < 2 ^ 63" "decimal ''7'' = 7"
    by (simp_all add: decimal_def decimal_from_def digitVal_def)
  from conjunct1 [OF inv] have l: "length (Split overflow_output newline) - 1 = 2"
    by (simp add: records_def)
  have c: "FindStringSubmatch (line p) (Split overflow_output newline ! Suc 1) !
           lookup (indexByName p) ''currentOffset'' = ''99999999999999999999''"
    "FindStringSubmatch (line p) (Split overflow_output newline ! Suc 1) !
           lookup (indexByName p) ''lag'' = ''7''"
    by (simp_all only: s m i) simp_all
  from b e l d c show ?thesis
    unfolding records_def by blast
qed

end
